theory Spec2Isabelle
  imports Complex_Main "HOL-Library.AList" "HOL-Library.Multiset"
begin

section \<open>Diarization post-processing of the AMI recipe\<close>

text \<open>
  The functions embedded here are those of \<^verbatim>\<open>recipes/AMI/Diarization/experiment.py\<close>:
  \<^verbatim>\<open>trace_back_cluster_labels\<close>, \<^verbatim>\<open>is_overlapped\<close>, \<^verbatim>\<open>merge_ssegs_same_speaker\<close>,
  \<^verbatim>\<open>distribute_overlap\<close>, \<^verbatim>\<open>write_rttm\<close> and the boundary part of \<^verbatim>\<open>do_sc\<close>.

  Python floats are modelled by rationals (exact arithmetic). Exceptions are values of
  \<open>py_error\<close>; a function that may raise returns \<open>py_error + 'a\<close>.
\<close>

datatype py_error = IndexError | KeyError | UnboundLocalError

subsection \<open>Sub-segments\<close>

text \<open>
  A sub-segment is the Python list \<^verbatim>\<open>[rec_id, sseg_start, sseg_end, spkr_id]\<close>; the fields
  are the positions 0 to 3. The source mutates these inner lists in place. Every inner
  list is a fresh object (\<^verbatim>\<open>a = [rec_id, sseg_start, sseg_end, spkr_id]\<close> in \<^verbatim>\<open>do_sc\<close>) and
  a pass stops writing to an object once it has appended it, so the value returned by a
  pass is the one computed here by passing the records along.
\<close>

record sseg =
  rec_id :: string
  sseg_start :: rat
  sseg_end :: rat
  spkr_id :: string

definition is_overlapped :: "rat \<Rightarrow> rat \<Rightarrow> bool" where
  "is_overlapped end1 start2 = (if start2 > end1 then False else True)"

subsection \<open>The merge pass\<close>

text \<open>
  The loop \<^verbatim>\<open>for i in range(1, len(lol))\<close> of \<^verbatim>\<open>merge_ssegs_same_speaker\<close>: the state is
  \<^verbatim>\<open>new_lol\<close> and the accumulator \<^verbatim>\<open>sseg\<close>, the third argument holds \<^verbatim>\<open>lol[i:]\<close>. The
  final state is returned whole; the function itself returns \<^verbatim>\<open>new_lol\<close> only.
\<close>

fun merge_loop :: "sseg list \<Rightarrow> sseg \<Rightarrow> sseg list \<Rightarrow> sseg list \<times> sseg" where
  "merge_loop new_lol sseg [] = (new_lol, sseg)"
| "merge_loop new_lol sseg (next_sseg # rest) =
     (if is_overlapped (sseg_end sseg) (sseg_start next_sseg) \<and> spkr_id sseg = spkr_id next_sseg
      then merge_loop new_lol (sseg\<lparr>sseg_end := sseg_end next_sseg\<rparr>) rest
      else merge_loop (new_lol @ [sseg]) next_sseg rest)"

definition merge_ssegs_same_speaker :: "sseg list \<Rightarrow> py_error + sseg list" where
  "merge_ssegs_same_speaker lol =
     (case lol of
        [] \<Rightarrow> Inl IndexError
      | sseg # rest \<Rightarrow> Inr (fst (merge_loop [] sseg rest)))"

subsection \<open>The overlap-redistribution pass\<close>

text \<open>
  One iteration of the loop of \<^verbatim>\<open>distribute_overlap\<close>. It returns the new \<^verbatim>\<open>new_lol\<close>
  and the updated \<^verbatim>\<open>next_sseg\<close>, which is also the new \<^verbatim>\<open>sseg\<close>. The comparison
  \<^verbatim>\<open>new_lol[-1] != sseg\<close> compares the two inner lists by value.
\<close>

definition distribute_body :: "sseg list \<Rightarrow> sseg \<Rightarrow> sseg \<Rightarrow> sseg list \<times> sseg" where
  "distribute_body new_lol sseg next_sseg =
     (if is_overlapped (sseg_end sseg) (sseg_start next_sseg) then
        (let overlap = sseg_end sseg - sseg_start next_sseg;
             sseg = sseg\<lparr>sseg_end := sseg_end sseg - overlap / 2\<rparr>;
             next_sseg = next_sseg\<lparr>sseg_start := sseg_start next_sseg + overlap / 2\<rparr>;
             new_lol = (if length new_lol = 0 then new_lol @ [sseg]
                        else if last new_lol \<noteq> sseg then new_lol @ [sseg] else new_lol)
         in (new_lol, next_sseg))
      else
        (let new_lol = (if length new_lol = 0 then new_lol @ [sseg]
                        else if last new_lol \<noteq> sseg then new_lol @ [sseg] else new_lol)
         in (new_lol, next_sseg)))"

text \<open>
  The loop state is \<^verbatim>\<open>new_lol\<close>, \<^verbatim>\<open>sseg\<close> and \<^verbatim>\<open>next_sseg\<close>; the last one is \<open>None\<close>
  as long as the loop has not assigned it.
\<close>

fun distribute_loop ::
  "sseg list \<Rightarrow> sseg \<Rightarrow> sseg option \<Rightarrow> sseg list \<Rightarrow> sseg list \<times> sseg \<times> sseg option" where
  "distribute_loop new_lol sseg nxt [] = (new_lol, sseg, nxt)"
| "distribute_loop new_lol sseg nxt (x # rest) =
     (case distribute_body new_lol sseg x of
        (new_lol', next_sseg) \<Rightarrow> distribute_loop new_lol' next_sseg (Some next_sseg) rest)"

definition distribute_overlap :: "sseg list \<Rightarrow> py_error + sseg list" where
  "distribute_overlap lol =
     (case lol of
        [] \<Rightarrow> Inl IndexError
      | sseg # rest \<Rightarrow>
          (case distribute_loop [] sseg None rest of
             (new_lol, _, None) \<Rightarrow> Inl UnboundLocalError
           | (new_lol, _, Some next_sseg) \<Rightarrow> Inr (new_lol @ [next_sseg])))"

text \<open>
  The boundary part of \<^verbatim>\<open>do_sc\<close>: the stable sort on the start time, the merge pass,
  then the overlap pass.
\<close>

definition do_sc_boundaries :: "sseg list \<Rightarrow> py_error + sseg list" where
  "do_sc_boundaries lol =
     (case merge_ssegs_same_speaker (sort_key sseg_start lol) of
        Inl e \<Rightarrow> Inl e
      | Inr merged \<Rightarrow> distribute_overlap merged)"

subsection \<open>Writing the RTTM file\<close>

text \<open>
  \<^verbatim>\<open>round(x, 4)\<close> on exact values: the nearest multiple of \<open>10\<^sup>-\<^sup>4\<close>, a tie going to the
  even one. \<^verbatim>\<open>str\<close> of a float is a parameter of \<open>write_rttm\<close>: the decimal text Python
  prints for a float is outside exact arithmetic.
\<close>

definition round_half_even :: "rat \<Rightarrow> int" where
  "round_half_even x =
     (let f = \<lfloor>x\<rfloor>; d = x - of_int f
      in if d < 1 / 2 then f else if d > 1 / 2 then f + 1 else if even f then f else f + 1)"

definition py_round :: "rat \<Rightarrow> nat \<Rightarrow> rat" where
  "py_round x ndigits = of_int (round_half_even (x * 10 ^ ndigits)) / 10 ^ ndigits"

text \<open>\<^verbatim>\<open>" ".join(row)\<close>\<close>

fun join_sp :: "string list \<Rightarrow> string" where
  "join_sp [] = []"
| "join_sp [x] = x"
| "join_sp (x # y # zs) = x @ '' '' @ join_sp (y # zs)"

text \<open>The list \<^verbatim>\<open>rttm\<close> of rows that \<^verbatim>\<open>write_rttm\<close> builds before it opens the file.\<close>

definition rttm_rows :: "(rat \<Rightarrow> string) \<Rightarrow> string \<Rightarrow> sseg list \<Rightarrow> string list list" where
  "rttm_rows str r segs_list =
     map (\<lambda>seg. [''SPEAKER'', r, ''0'',
                  str (py_round (sseg_start seg) 4),
                  str (py_round (sseg_end seg - sseg_start seg) 4),
                  ''<NA>'', ''<NA>'', spkr_id seg, ''<NA>'', ''<NA>'']) segs_list"

text \<open>
  \<open>write_rttm\<close> returns the text written to \<^verbatim>\<open>out_rttm_file\<close>; \<^verbatim>\<open>segs_list[0][0]\<close> raises
  on an empty list.
\<close>

definition write_rttm :: "(rat \<Rightarrow> string) \<Rightarrow> sseg list \<Rightarrow> py_error + string" where
  "write_rttm str segs_list =
     (case segs_list of
        [] \<Rightarrow> Inl IndexError
      | first # _ \<Rightarrow>
          Inr (concat (map (\<lambda>row. join_sp row @ [CHR 0x0A])
                           (rttm_rows str (rec_id first) segs_list))))"

subsection \<open>Tracing cluster labels back through the merge records\<close>

text \<open>
  A row of \<^verbatim>\<open>cluster_map_traverse\<close>: column 0 and column 1 name the two clusters that are
  merged, column 2 is their distance. The entries are floats, \<^verbatim>\<open>int\<close> truncates them
  towards zero.
\<close>

record merge_rec =
  col0 :: rat
  col1 :: rat
  col2 :: rat

definition py_int :: "rat \<Rightarrow> int" where
  "py_int x = (if x < 0 then \<lceil>x\<rceil> else \<lfloor>x\<rfloor>)"

text \<open>\<^verbatim>\<open>str\<close> of an integer: its decimal digits, after a minus sign when negative.\<close>

definition digit_char :: "nat \<Rightarrow> char" where
  "digit_char d = ''0123456789'' ! d"

fun str_nat :: "nat \<Rightarrow> string" where
  "str_nat n = (if n < 10 then [digit_char n] else str_nat (n div 10) @ [digit_char (n mod 10)])"

definition py_str :: "int \<Rightarrow> string" where
  "py_str i = (if i < 0 then CHR ''-'' # str_nat (nat (- i)) else str_nat (nat i))"

text \<open>
  The dictionary \<^verbatim>\<open>clusters\<close> as an association list in insertion order:
  \<open>AList.update\<close> is the assignment \<^verbatim>\<open>clusters[k] = v\<close>, \<open>map_of\<close> the lookup.
\<close>

type_synonym clusters = "(string \<times> nat list) list"

definition dict_get :: "clusters \<Rightarrow> string \<Rightarrow> py_error + nat list" where
  "dict_get clusters k = (case map_of clusters k of None \<Rightarrow> Inl KeyError | Some v \<Rightarrow> Inr v)"

definition dict_pop :: "clusters \<Rightarrow> string \<Rightarrow> py_error + clusters" where
  "dict_pop clusters k =
     (case map_of clusters k of None \<Rightarrow> Inl KeyError | Some v \<Rightarrow> Inr (AList.delete k clusters))"

text \<open>\<^verbatim>\<open>for i in range(N): clusters[str(i)] = [i]\<close>\<close>

definition init_clusters :: "nat \<Rightarrow> clusters" where
  "init_clusters N = foldl (\<lambda>clusters i. AList.update (py_str (int i)) [i] clusters) [] [0..<N]"

text \<open>
  \<^verbatim>\<open>oracle_num_spkrs and len(clusters) <= oracle_num_spkrs\<close>: \<open>None\<close> and \<open>0\<close> are falsy.
\<close>

definition stop_reached :: "int option \<Rightarrow> clusters \<Rightarrow> bool" where
  "stop_reached oracle_num_spkrs clusters =
     (case oracle_num_spkrs of
        None \<Rightarrow> False
      | Some k \<Rightarrow> k \<noteq> 0 \<and> int (length clusters) \<le> k)"

text \<open>
  One pass through the body of the \<^verbatim>\<open>while\<close> loop, up to \<^verbatim>\<open>i += 1\<close>: the two lookups,
  the assignment to \<^verbatim>\<open>clusters[new_id]\<close> and the two \<^verbatim>\<open>pop\<close>s. Reading a row past the end
  of the array raises \<^verbatim>\<open>IndexError\<close>, a missing key \<^verbatim>\<open>KeyError\<close>.
\<close>

definition trace_back_body :: "merge_rec list \<Rightarrow> nat \<Rightarrow> nat \<Rightarrow> clusters \<Rightarrow> py_error + clusters" where
  "trace_back_body cluster_map_traverse N i clusters =
     (if length cluster_map_traverse \<le> i then Inl IndexError
      else
        (let a = py_str (py_int (col0 (cluster_map_traverse ! i)));
             b = py_str (py_int (col1 (cluster_map_traverse ! i)));
             new_id = py_str (int (N + i))
         in case dict_get clusters a of
              Inl e \<Rightarrow> Inl e
            | Inr ca \<Rightarrow>
               (case dict_get clusters b of
                  Inl e \<Rightarrow> Inl e
                | Inr cb \<Rightarrow>
                   (case dict_pop (AList.update new_id (ca @ cb) clusters) a of
                      Inl e \<Rightarrow> Inl e
                    | Inr clusters1 \<Rightarrow> dict_pop clusters1 b))))"

text \<open>
  The loop \<^verbatim>\<open>while i < N - 1\<close>; the test for the \<^verbatim>\<open>break\<close> comes after the body and after
  \<^verbatim>\<open>i += 1\<close>.
\<close>

function trace_back_loop ::
  "merge_rec list \<Rightarrow> nat \<Rightarrow> int option \<Rightarrow> nat \<Rightarrow> clusters \<Rightarrow> py_error + clusters" where
  "trace_back_loop cluster_map_traverse N oracle_num_spkrs i clusters =
     (if i < N - 1 then
        (case trace_back_body cluster_map_traverse N i clusters of
           Inl e \<Rightarrow> Inl e
         | Inr clusters' \<Rightarrow>
            (if stop_reached oracle_num_spkrs clusters' then Inr clusters'
             else trace_back_loop cluster_map_traverse N oracle_num_spkrs (i + 1) clusters'))
      else Inr clusters)"
  by pat_completeness auto
termination
  by (relation "measure (\<lambda>(cmt, N, oracle, i, clusters). N - 1 - i)") auto

declare trace_back_loop.simps [simp del]
declare str_nat.simps [simp del]

definition trace_back_cluster_labels ::
  "merge_rec list \<Rightarrow> rat \<Rightarrow> int option \<Rightarrow> py_error + clusters" where
  "trace_back_cluster_labels cluster_map_traverse threshold oracle_num_spkrs =
     (let N = length cluster_map_traverse + 1
      in trace_back_loop cluster_map_traverse N oracle_num_spkrs 0 (init_clusters N))"

text \<open>
  A merge record sequence over \<open>N\<close> original indices is a linkage when every record names
  two different clusters that exist at that point: the originals \<open>0, \<dots>, N - 1\<close> and the
  clusters \<open>N + j\<close> made by earlier records, each until it has been merged away.
\<close>

fun valid_merges :: "int list \<Rightarrow> nat \<Rightarrow> merge_rec list \<Rightarrow> bool" where
  "valid_merges alive new_id [] = True"
| "valid_merges alive new_id (r # rs) =
     (py_int (col0 r) \<in> set alive \<and> py_int (col1 r) \<in> set alive
      \<and> py_int (col0 r) \<noteq> py_int (col1 r)
      \<and> valid_merges (int new_id # removeAll (py_int (col0 r)) (removeAll (py_int (col1 r)) alive))
           (new_id + 1) rs)"

definition valid_linkage :: "merge_rec list \<Rightarrow> bool" where
  "valid_linkage cluster_map_traverse =
     (let N = length cluster_map_traverse + 1
      in valid_merges (map int [0..<N]) N cluster_map_traverse)"

subsection \<open>Properties of segment lists\<close>

text \<open>No two neighbours that the merge pass would fuse.\<close>

fun no_mergeable_adjacent :: "sseg list \<Rightarrow> bool" where
  "no_mergeable_adjacent (a # b # rest) =
     (\<not> (sseg_start b \<le> sseg_end a \<and> spkr_id a = spkr_id b) \<and> no_mergeable_adjacent (b # rest))"
| "no_mergeable_adjacent _ = True"

text \<open>Every segment ends no later than its successor starts.\<close>

fun non_overlapping :: "sseg list \<Rightarrow> bool" where
  "non_overlapping (a # b # rest) = (sseg_end a \<le> sseg_start b \<and> non_overlapping (b # rest))"
| "non_overlapping _ = True"

text \<open>Every segment has a positive duration.\<close>

definition all_pos :: "sseg list \<Rightarrow> bool" where
  "all_pos xs = (\<forall>s \<in> set xs. sseg_start s < sseg_end s)"

text \<open>
  Sorted by start time, with strictly increasing end times and positive durations: what
  the sub-segments of one recording are when they are windows cut along the time axis.
\<close>

definition ordered_segs :: "sseg list \<Rightarrow> bool" where
  "ordered_segs xs = (sorted (map sseg_start xs) \<and> sorted_wrt (<) (map sseg_end xs) \<and> all_pos xs)"

text \<open>The indices held by a cluster dictionary, counted with multiplicity.\<close>

definition contents :: "clusters \<Rightarrow> nat multiset" where
  "contents clusters = sum_list (map (\<lambda>kv. mset (snd kv)) clusters)"

text \<open>
  What holds of the dictionary before the merge number \<open>i\<close>, where \<open>alive\<close> lists the
  clusters that exist at that point: the keys are the names of the clusters alive, the
  last one made is among them, there are \<open>N - i\<close> entries, none of them empty, and their
  index lists together hold each of \<open>0, \<dots>, N - 1\<close> once.
\<close>

definition clusters_inv :: "nat \<Rightarrow> nat \<Rightarrow> int list \<Rightarrow> clusters \<Rightarrow> bool" where
  "clusters_inv N i alive clusters =
     (distinct (map fst clusters) \<and> set (map fst clusters) = py_str ` set alive
      \<and> (\<forall>x \<in> set alive. x < int (N + i)) \<and> (0 < i \<longrightarrow> int (N + i) - 1 \<in> set alive)
      \<and> length clusters + i = N
      \<and> contents clusters = mset [0..<N] \<and> (\<forall>v \<in> snd ` set clusters. v \<noteq> []))"

text \<open>
  The number of clusters the loop returns when it is entered before merge \<open>i\<close>: the test
  for the \<^verbatim>\<open>break\<close> is first made after one merge.
\<close>

definition expected_len :: "int option \<Rightarrow> nat \<Rightarrow> nat \<Rightarrow> nat" where
  "expected_len oracle_num_spkrs N i =
     (case oracle_num_spkrs of
        None \<Rightarrow> 1
      | Some k \<Rightarrow> if i < N - 1 \<and> 1 \<le> k then min (N - 1 - i) (nat k) else 1)"

section \<open>The boundary passes\<close>

lemmas seg_defs =
  do_sc_boundaries_def merge_ssegs_same_speaker_def distribute_overlap_def
  distribute_body_def is_overlapped_def

subsection \<open>The scenario of five sub-segments\<close>

text \<open>
  C1. The five sub-segments of recording \<open>R1\<close> with labels \<open>A, A, B, A, B\<close> and times
  \<open>(0,2), (1,3), (3,5), (4,6), (5,7)\<close>. The merge pass fuses the first two and returns
  \<open>A:(0,3), B:(3,5), A:(4,6)\<close>: its last accumulator \<open>B:(5,7)\<close> is never appended. The
  overlap pass then returns \<open>A:(0,3), B:(3,4.5), A:(4.5,6)\<close>, so the result has three
  segments, not the four \<open>A:(0,3), B:(3,4.5), A:(4.5,5.5), B:(5.5,7)\<close>.
\<close>

theorem scenario_five_subsegments:
  "merge_ssegs_same_speaker
     [\<lparr>rec_id = ''R1'', sseg_start = 0, sseg_end = 2, spkr_id = ''A''\<rparr>,
     \<lparr>rec_id = ''R1'', sseg_start = 1, sseg_end = 3, spkr_id = ''A''\<rparr>,
     \<lparr>rec_id = ''R1'', sseg_start = 3, sseg_end = 5, spkr_id = ''B''\<rparr>,
     \<lparr>rec_id = ''R1'', sseg_start = 4, sseg_end = 6, spkr_id = ''A''\<rparr>,
     \<lparr>rec_id = ''R1'', sseg_start = 5, sseg_end = 7, spkr_id = ''B''\<rparr>]
   = Inr [\<lparr>rec_id = ''R1'', sseg_start = 0, sseg_end = 3, spkr_id = ''A''\<rparr>,
         \<lparr>rec_id = ''R1'', sseg_start = 3, sseg_end = 5, spkr_id = ''B''\<rparr>,
         \<lparr>rec_id = ''R1'', sseg_start = 4, sseg_end = 6, spkr_id = ''A''\<rparr>]
   \<and> do_sc_boundaries
     [\<lparr>rec_id = ''R1'', sseg_start = 0, sseg_end = 2, spkr_id = ''A''\<rparr>,
     \<lparr>rec_id = ''R1'', sseg_start = 1, sseg_end = 3, spkr_id = ''A''\<rparr>,
     \<lparr>rec_id = ''R1'', sseg_start = 3, sseg_end = 5, spkr_id = ''B''\<rparr>,
     \<lparr>rec_id = ''R1'', sseg_start = 4, sseg_end = 6, spkr_id = ''A''\<rparr>,
     \<lparr>rec_id = ''R1'', sseg_start = 5, sseg_end = 7, spkr_id = ''B''\<rparr>]
   = Inr [\<lparr>rec_id = ''R1'', sseg_start = 0, sseg_end = 3, spkr_id = ''A''\<rparr>,
         \<lparr>rec_id = ''R1'', sseg_start = 3, sseg_end = 9 / 2, spkr_id = ''B''\<rparr>,
         \<lparr>rec_id = ''R1'', sseg_start = 9 / 2, sseg_end = 6, spkr_id = ''A''\<rparr>]"
  by (simp add: seg_defs)

subsection \<open>What the merge pass returns\<close>

lemma nma_snoc:
  "no_mergeable_adjacent (xs @ [a]) \<Longrightarrow> \<not> (sseg_start b \<le> sseg_end a \<and> spkr_id a = spkr_id b)
   \<Longrightarrow> no_mergeable_adjacent (xs @ [a, b])"
  by (induction xs rule: no_mergeable_adjacent.induct) auto

lemma nma_last_end:
  "no_mergeable_adjacent (xs @ [a]) \<Longrightarrow> no_mergeable_adjacent (xs @ [a\<lparr>sseg_end := e\<rparr>])"
  by (induction xs rule: no_mergeable_adjacent.induct) auto

lemma nma_prefix: "no_mergeable_adjacent (xs @ ys) \<Longrightarrow> no_mergeable_adjacent xs"
  by (induction xs rule: no_mergeable_adjacent.induct) auto

lemma merge_loop_nma:
  "no_mergeable_adjacent (new_lol @ [sseg]) \<Longrightarrow> merge_loop new_lol sseg rest = (out, acc)
   \<Longrightarrow> no_mergeable_adjacent (out @ [acc])"
proof (induction rest arbitrary: new_lol sseg)
  case Nil
  then show ?case by simp
next
  case (Cons n rest)
  show ?case
  proof (cases "is_overlapped (sseg_end sseg) (sseg_start n) \<and> spkr_id sseg = spkr_id n")
    case True
    with Cons.prems have "merge_loop new_lol (sseg\<lparr>sseg_end := sseg_end n\<rparr>) rest = (out, acc)"
      by simp
    with Cons.IH [OF nma_last_end [OF Cons.prems(1)]] show ?thesis .
  next
    case False
    with Cons.prems have m: "merge_loop (new_lol @ [sseg]) n rest = (out, acc)"
      by auto
    from False have "\<not> (sseg_start n \<le> sseg_end sseg \<and> spkr_id sseg = spkr_id n)"
      by (auto simp: is_overlapped_def split: if_splits)
    from nma_snoc [OF Cons.prems(1) this] have "no_mergeable_adjacent ((new_lol @ [sseg]) @ [n])"
      by simp
    from Cons.IH [OF this m] show ?thesis .
  qed
qed

text \<open>
  The second half of the idempotence property holds for every input: no two neighbours
  of the merge output share a speaker while they overlap or touch.
\<close>

lemma merge_output_nma:
  assumes "merge_ssegs_same_speaker lol = Inr out"
  shows "no_mergeable_adjacent out"
proof (cases lol)
  case Nil
  with assms show ?thesis by (simp add: merge_ssegs_same_speaker_def)
next
  case (Cons x rest)
  obtain o' acc where m: "merge_loop [] x rest = (o', acc)" by fastforce
  with assms Cons have "out = o'" by (simp add: merge_ssegs_same_speaker_def)
  moreover have "no_mergeable_adjacent (o' @ [acc])"
    using merge_loop_nma [of "[]" x rest o' acc] m by simp
  ultimately show ?thesis using nma_prefix by blast
qed

lemma merge_loop_nma_id:
  "no_mergeable_adjacent (sseg # rest) \<Longrightarrow>
   merge_loop new_lol sseg rest = (new_lol @ butlast (sseg # rest), last (sseg # rest))"
proof (induction rest arbitrary: new_lol sseg)
  case Nil
  then show ?case by simp
next
  case (Cons n rest)
  then show ?case by (auto simp: is_overlapped_def)
qed

text \<open>
  The first half does not: a second run of the merge pass fuses nothing, but it again
  leaves out its last accumulator, so it returns its input without the last segment,
  and raises on the empty list.
\<close>

lemma merge_twice:
  assumes "merge_ssegs_same_speaker lol = Inr out"
  shows "merge_ssegs_same_speaker out = (if out = [] then Inl IndexError else Inr (butlast out))"
proof (cases out)
  case Nil
  then show ?thesis by (simp add: merge_ssegs_same_speaker_def)
next
  case (Cons x rest)
  from merge_output_nma [OF assms] Cons have "no_mergeable_adjacent (x # rest)" by simp
  from merge_loop_nma_id [OF this, of "[]"] Cons show ?thesis
    by (simp add: merge_ssegs_same_speaker_def)
qed

lemma merge_never_fixpoint:
  assumes "merge_ssegs_same_speaker lol = Inr out"
  shows "merge_ssegs_same_speaker out \<noteq> Inr out"
  using merge_twice [OF assms] by (cases out rule: rev_cases) auto

text \<open>
  C3. Merge idempotence at the sorted list \<open>A:(0,1), B:(2,3), A:(4,5)\<close>: the merge pass
  returns \<open>A:(0,1), B:(2,3)\<close>, no two neighbours of which could be fused, and the merge
  pass run on that output returns \<open>A:(0,1)\<close> alone instead of the same two segments.
\<close>

theorem merge_rerun_drops_last:
  "merge_ssegs_same_speaker
     [\<lparr>rec_id = ''R1'', sseg_start = 0, sseg_end = 1, spkr_id = ''A''\<rparr>,
     \<lparr>rec_id = ''R1'', sseg_start = 2, sseg_end = 3, spkr_id = ''B''\<rparr>,
     \<lparr>rec_id = ''R1'', sseg_start = 4, sseg_end = 5, spkr_id = ''A''\<rparr>]
   = Inr [\<lparr>rec_id = ''R1'', sseg_start = 0, sseg_end = 1, spkr_id = ''A''\<rparr>,
         \<lparr>rec_id = ''R1'', sseg_start = 2, sseg_end = 3, spkr_id = ''B''\<rparr>]
   \<and> no_mergeable_adjacent [\<lparr>rec_id = ''R1'', sseg_start = 0, sseg_end = 1, spkr_id = ''A''\<rparr>,
         \<lparr>rec_id = ''R1'', sseg_start = 2, sseg_end = 3, spkr_id = ''B''\<rparr>]
   \<and> merge_ssegs_same_speaker [\<lparr>rec_id = ''R1'', sseg_start = 0, sseg_end = 1, spkr_id = ''A''\<rparr>,
         \<lparr>rec_id = ''R1'', sseg_start = 2, sseg_end = 3, spkr_id = ''B''\<rparr>]
   = Inr [\<lparr>rec_id = ''R1'', sseg_start = 0, sseg_end = 1, spkr_id = ''A''\<rparr>]"
  by (simp add: seg_defs)

text \<open>
  C4. The flush protocol at the sorted list \<open>A:(0,1), B:(2,3), C:(4,5)\<close>. The merge loop
  ends with \<open>C:(4,5)\<close> as its accumulator and the merge pass returns \<open>A:(0,1), B:(2,3)\<close>
  without it. The append after the loop of the overlap pass adds \<open>B:(2,3)\<close>, the last
  element of the list it was given, so the two passes together return
  \<open>A:(0,1), B:(2,3)\<close> and the last segment of the recording is lost. On the first two
  segments alone the merge pass returns one segment and the overlap pass raises.
\<close>

theorem last_segment_not_flushed:
  "merge_loop []
     \<lparr>rec_id = ''R1'', sseg_start = 0, sseg_end = 1, spkr_id = ''A''\<rparr>
     [\<lparr>rec_id = ''R1'', sseg_start = 2, sseg_end = 3, spkr_id = ''B''\<rparr>,
      \<lparr>rec_id = ''R1'', sseg_start = 4, sseg_end = 5, spkr_id = ''C''\<rparr>]
   = ([\<lparr>rec_id = ''R1'', sseg_start = 0, sseg_end = 1, spkr_id = ''A''\<rparr>,
     \<lparr>rec_id = ''R1'', sseg_start = 2, sseg_end = 3, spkr_id = ''B''\<rparr>],
      \<lparr>rec_id = ''R1'', sseg_start = 4, sseg_end = 5, spkr_id = ''C''\<rparr>)
   \<and> merge_ssegs_same_speaker [\<lparr>rec_id = ''R1'', sseg_start = 0, sseg_end = 1, spkr_id = ''A''\<rparr>,
     \<lparr>rec_id = ''R1'', sseg_start = 2, sseg_end = 3, spkr_id = ''B''\<rparr>,
     \<lparr>rec_id = ''R1'', sseg_start = 4, sseg_end = 5, spkr_id = ''C''\<rparr>]
   = Inr [\<lparr>rec_id = ''R1'', sseg_start = 0, sseg_end = 1, spkr_id = ''A''\<rparr>,
     \<lparr>rec_id = ''R1'', sseg_start = 2, sseg_end = 3, spkr_id = ''B''\<rparr>]
   \<and> distribute_overlap [\<lparr>rec_id = ''R1'', sseg_start = 0, sseg_end = 1, spkr_id = ''A''\<rparr>,
     \<lparr>rec_id = ''R1'', sseg_start = 2, sseg_end = 3, spkr_id = ''B''\<rparr>]
   = Inr [\<lparr>rec_id = ''R1'', sseg_start = 0, sseg_end = 1, spkr_id = ''A''\<rparr>,
     \<lparr>rec_id = ''R1'', sseg_start = 2, sseg_end = 3, spkr_id = ''B''\<rparr>]
   \<and> do_sc_boundaries [\<lparr>rec_id = ''R1'', sseg_start = 0, sseg_end = 1, spkr_id = ''A''\<rparr>,
     \<lparr>rec_id = ''R1'', sseg_start = 2, sseg_end = 3, spkr_id = ''B''\<rparr>,
     \<lparr>rec_id = ''R1'', sseg_start = 4, sseg_end = 5, spkr_id = ''C''\<rparr>]
   = Inr [\<lparr>rec_id = ''R1'', sseg_start = 0, sseg_end = 1, spkr_id = ''A''\<rparr>,
     \<lparr>rec_id = ''R1'', sseg_start = 2, sseg_end = 3, spkr_id = ''B''\<rparr>]
   \<and> do_sc_boundaries [\<lparr>rec_id = ''R1'', sseg_start = 0, sseg_end = 1, spkr_id = ''A''\<rparr>,
     \<lparr>rec_id = ''R1'', sseg_start = 2, sseg_end = 3, spkr_id = ''B''\<rparr>] = Inl UnboundLocalError"
  by (simp add: seg_defs)

subsection \<open>What the overlap pass returns\<close>

lemma distribute_loop_Some:
  "\<exists>new_lol s n. distribute_loop acc sseg nxt (x # rest) = (new_lol, s, Some n)"
proof (induction rest arbitrary: acc sseg nxt x)
  case Nil
  then show ?case by (simp split: prod.splits)
next
  case (Cons y rest)
  show ?case
    using Cons.IH by (simp split: prod.splits)
qed

lemma distribute_overlap_two_or_more: "\<exists>out. distribute_overlap (x # y # rest) = Inr out"
  using distribute_loop_Some [of "[]" x None y rest]
  by (auto simp: distribute_overlap_def)

text \<open>
  C9. \<open>distribute_overlap\<close> returns exactly on the lists of two or more segments: the
  empty list fails at \<^verbatim>\<open>lol[0]\<close>, a list of one segment at the final append, where
  \<^verbatim>\<open>next_sseg\<close> has never been assigned.
\<close>

theorem distribute_overlap_returns_iff:
  "((\<exists>out. distribute_overlap lol = Inr out) \<longleftrightarrow> 2 \<le> length lol)
   \<and> distribute_overlap [] = Inl IndexError
   \<and> (\<forall>x. distribute_overlap [x] = Inl UnboundLocalError)"
proof -
  have e: "distribute_overlap [] = Inl IndexError"
    by (simp add: distribute_overlap_def)
  have s: "distribute_overlap [x] = Inl UnboundLocalError" for x
    by (simp add: distribute_overlap_def)
  show ?thesis
    using e s distribute_overlap_two_or_more
    by (cases lol rule: remdups_adj.cases) auto
qed

theorem distribute_overlap_returns_iff_witness:
  "(\<exists>out. distribute_overlap [\<lparr>rec_id = ''R1'', sseg_start = 0, sseg_end = 1, spkr_id = ''A''\<rparr>,
     \<lparr>rec_id = ''R1'', sseg_start = 2, sseg_end = 3, spkr_id = ''B''\<rparr>] = Inr out)
   \<and> distribute_overlap [\<lparr>rec_id = ''R1'', sseg_start = 0, sseg_end = 1, spkr_id = ''A''\<rparr>] = Inl UnboundLocalError"
  using distribute_overlap_returns_iff
          [of "[\<lparr>rec_id = ''R1'', sseg_start = 0, sseg_end = 1, spkr_id = ''A''\<rparr>,
     \<lparr>rec_id = ''R1'', sseg_start = 2, sseg_end = 3, spkr_id = ''B''\<rparr>]"]
  by simp

text \<open>
  C6. When the pass meets a pair with \<open>d = cur.end - next.start \<ge> 0\<close>, the body of its
  loop moves the end of \<open>cur\<close> back by \<open>d / 2\<close> and the start of \<open>next\<close> forward by \<open>d / 2\<close>;
  the two then coincide. The updated \<open>cur\<close> is appended unless it equals the last
  appended segment, the updated \<open>next\<close> is the segment the loop goes on with. On the
  list of these two segments the pass returns the two updated segments.
\<close>

theorem overlap_split_at_midpoint:
  assumes "0 \<le> sseg_end cur - sseg_start nxt"
  shows "let d = sseg_end cur - sseg_start nxt;
             cur' = cur\<lparr>sseg_end := sseg_end cur - d / 2\<rparr>;
             nxt' = nxt\<lparr>sseg_start := sseg_start nxt + d / 2\<rparr>
         in distribute_body new_lol cur nxt
              = (if new_lol = [] \<or> last new_lol \<noteq> cur' then new_lol @ [cur'] else new_lol, nxt')
            \<and> sseg_end cur' = sseg_start nxt'
            \<and> distribute_overlap [cur, nxt] = Inr [cur', nxt']"
  using assms by (simp add: seg_defs Let_def field_simps)

theorem overlap_split_at_midpoint_witness:
  "(0::rat) \<le> 5 - 4
   \<and> distribute_body [\<lparr>rec_id = ''R1'', sseg_start = 0, sseg_end = 3, spkr_id = ''A''\<rparr>]
        \<lparr>rec_id = ''R1'', sseg_start = 3, sseg_end = 5, spkr_id = ''B''\<rparr>
        \<lparr>rec_id = ''R1'', sseg_start = 4, sseg_end = 6, spkr_id = ''A''\<rparr>
      = ([\<lparr>rec_id = ''R1'', sseg_start = 0, sseg_end = 3, spkr_id = ''A''\<rparr>,
          \<lparr>rec_id = ''R1'', sseg_start = 3, sseg_end = 9 / 2, spkr_id = ''B''\<rparr>],
         \<lparr>rec_id = ''R1'', sseg_start = 9 / 2, sseg_end = 6, spkr_id = ''A''\<rparr>)
   \<and> distribute_overlap [\<lparr>rec_id = ''R1'', sseg_start = 3, sseg_end = 5, spkr_id = ''B''\<rparr>,
        \<lparr>rec_id = ''R1'', sseg_start = 4, sseg_end = 6, spkr_id = ''A''\<rparr>]
      = Inr [\<lparr>rec_id = ''R1'', sseg_start = 3, sseg_end = 9 / 2, spkr_id = ''B''\<rparr>,
             \<lparr>rec_id = ''R1'', sseg_start = 9 / 2, sseg_end = 6, spkr_id = ''A''\<rparr>]"
  using overlap_split_at_midpoint
          [of "\<lparr>rec_id = ''R1'', sseg_start = 3, sseg_end = 5, spkr_id = ''B''\<rparr>"
              "\<lparr>rec_id = ''R1'', sseg_start = 4, sseg_end = 6, spkr_id = ''A''\<rparr>"
              "[\<lparr>rec_id = ''R1'', sseg_start = 0, sseg_end = 3, spkr_id = ''A''\<rparr>]"]
  by (simp add: Let_def)

subsection \<open>Order and durations after the two passes\<close>

lemma non_overlapping_snoc:
  "non_overlapping (xs @ [a]) = (non_overlapping xs \<and> (xs \<noteq> [] \<longrightarrow> sseg_end (last xs) \<le> sseg_start a))"
  by (induction xs rule: non_overlapping.induct) auto

lemma distribute_body_non_overlapping:
  assumes "non_overlapping (new_lol @ [sseg])" "distribute_body new_lol sseg n = (new_lol', n')"
  shows "non_overlapping (new_lol' @ [n'])"
  using assms
  by (auto simp: distribute_body_def is_overlapped_def Let_def non_overlapping_snoc field_simps
           split: if_splits)

lemma distribute_loop_non_overlapping:
  "non_overlapping (new_lol @ [sseg]) \<Longrightarrow> distribute_loop new_lol sseg nxt rest = (out, s, nx)
   \<Longrightarrow> non_overlapping (out @ [s])"
proof (induction rest arbitrary: new_lol sseg nxt)
  case Nil
  then show ?case by simp
next
  case (Cons n rest)
  obtain new_lol' n' where b: "distribute_body new_lol sseg n = (new_lol', n')" by fastforce
  with Cons.prems have "distribute_loop new_lol' n' (Some n') rest = (out, s, nx)" by simp
  with Cons.IH [OF distribute_body_non_overlapping [OF Cons.prems(1) b]] show ?case .
qed

lemma distribute_loop_next:
  "distribute_loop new_lol sseg nxt (x # rest) = (out, s, nx) \<Longrightarrow> nx = Some s"
proof (induction rest arbitrary: new_lol sseg nxt x)
  case Nil
  then show ?case by (auto split: prod.splits)
next
  case (Cons y rest)
  obtain new_lol' n' where b: "distribute_body new_lol sseg x = (new_lol', n')" by fastforce
  with Cons.prems have "distribute_loop new_lol' n' (Some n') (y # rest) = (out, s, nx)" by simp
  from Cons.IH [OF this] show ?case .
qed

text \<open>
  The result of the overlap pass is the final \<^verbatim>\<open>new_lol\<close> followed by the final \<^verbatim>\<open>sseg\<close>.
\<close>

lemma distribute_overlap_result:
  assumes "distribute_overlap lol = Inr out"
  obtains x rest new_lol s nx where "lol = x # rest" "rest \<noteq> []"
    "distribute_loop [] x None rest = (new_lol, s, nx)" "out = new_lol @ [s]"
proof (cases lol rule: remdups_adj.cases)
  case 1
  with assms show ?thesis by (simp add: distribute_overlap_def)
next
  case (2 x)
  with assms show ?thesis by (simp add: distribute_overlap_def)
next
  case (3 x y rest)
  obtain new_lol s nx where l: "distribute_loop [] x None (y # rest) = (new_lol, s, nx)"
    by (metis prod_cases3)
  from distribute_loop_next [OF l] have nx: "nx = Some s" .
  with assms 3 l have "out = new_lol @ [s]" by (simp add: distribute_overlap_def)
  with 3 l that show ?thesis by blast
qed

lemma distribute_overlap_non_overlapping:
  assumes "distribute_overlap lol = Inr out"
  shows "non_overlapping out"
proof -
  from assms obtain x rest new_lol s nx
    where l: "distribute_loop [] x None rest = (new_lol, s, nx)" and o: "out = new_lol @ [s]"
    by (rule distribute_overlap_result)
  have "non_overlapping (new_lol @ [s])"
    using distribute_loop_non_overlapping [OF _ l] by simp
  with o show ?thesis by simp
qed

lemma distribute_body_pos:
  assumes "all_pos new_lol" "sseg_start sseg < sseg_end sseg"
    and "2 * sseg_start sseg < sseg_end sseg + sseg_start n" "sseg_end sseg < sseg_end n"
    and "sseg_start n < sseg_end n"
    and "distribute_body new_lol sseg n = (new_lol', n')"
  shows "all_pos new_lol' \<and> sseg_start n' < sseg_end n' \<and> sseg_end n' = sseg_end n
         \<and> (\<forall>m. sseg_start n \<le> sseg_start m \<longrightarrow> 2 * sseg_start n' < sseg_end n + sseg_start m)"
  using assms
  by (auto simp: distribute_body_def is_overlapped_def Let_def all_pos_def field_simps
           split: if_splits)

lemma distribute_loop_pos:
  "all_pos new_lol \<Longrightarrow> sseg_start sseg < sseg_end sseg \<Longrightarrow>
   (\<forall>n \<in> set rest. 2 * sseg_start sseg < sseg_end sseg + sseg_start n \<and> sseg_end sseg < sseg_end n) \<Longrightarrow>
   ordered_segs rest \<Longrightarrow>
   distribute_loop new_lol sseg nxt rest = (out, s, nx) \<Longrightarrow>
   all_pos (out @ [s])"
proof (induction rest arbitrary: new_lol sseg nxt)
  case Nil
  then show ?case by (simp add: all_pos_def)
next
  case (Cons n rest)
  obtain new_lol' n' where b: "distribute_body new_lol sseg n = (new_lol', n')" by fastforce
  with Cons.prems have l: "distribute_loop new_lol' n' (Some n') rest = (out, s, nx)" by simp
  have n: "sseg_start n < sseg_end n"
    using Cons.prems(4) by (simp add: ordered_segs_def all_pos_def)
  have h: "2 * sseg_start sseg < sseg_end sseg + sseg_start n" "sseg_end sseg < sseg_end n"
    using Cons.prems(3) by simp_all
  note B = distribute_body_pos [OF Cons.prems(1,2) h n b]
  have "\<forall>m \<in> set rest. 2 * sseg_start n' < sseg_end n' + sseg_start m \<and> sseg_end n' < sseg_end m"
    using B Cons.prems(4) by (auto simp: ordered_segs_def)
  moreover have "ordered_segs rest"
    using Cons.prems(4) by (simp add: ordered_segs_def all_pos_def)
  ultimately show ?case
    using Cons.IH [OF _ _ _ _ l] B by blast
qed

lemma distribute_overlap_pos:
  assumes "ordered_segs lol" "distribute_overlap lol = Inr out"
  shows "all_pos out"
proof -
  from assms(2) obtain x rest new_lol s nx
    where lol: "lol = x # rest"
      and l: "distribute_loop [] x None rest = (new_lol, s, nx)" and o: "out = new_lol @ [s]"
    by (rule distribute_overlap_result)
  have x: "sseg_start x < sseg_end x" "ordered_segs rest"
    using assms(1) lol by (simp_all add: ordered_segs_def all_pos_def)
  have "\<forall>n \<in> set rest. 2 * sseg_start x < sseg_end x + sseg_start n \<and> sseg_end x < sseg_end n"
    using assms(1) lol x(1) by (auto simp: ordered_segs_def)
  from distribute_loop_pos [OF _ x(1) this x(2) l] o show ?thesis
    by (simp add: all_pos_def)
qed

lemma merge_loop_ordered:
  "ordered_segs (new_lol @ sseg # rest) \<Longrightarrow> merge_loop new_lol sseg rest = (out, acc) \<Longrightarrow>
   ordered_segs (out @ [acc])"
proof (induction rest arbitrary: new_lol sseg)
  case Nil
  then show ?case by simp
next
  case (Cons n rest)
  show ?case
  proof (cases "is_overlapped (sseg_end sseg) (sseg_start n) \<and> spkr_id sseg = spkr_id n")
    case True
    with Cons.prems have m: "merge_loop new_lol (sseg\<lparr>sseg_end := sseg_end n\<rparr>) rest = (out, acc)"
      by simp
    have "ordered_segs (new_lol @ sseg\<lparr>sseg_end := sseg_end n\<rparr> # rest)"
      using Cons.prems(1)
      by (auto simp: ordered_segs_def all_pos_def sorted_append sorted_wrt_append)
    then show ?thesis using Cons.IH m by blast
  next
    case False
    with Cons.prems have m: "merge_loop (new_lol @ [sseg]) n rest = (out, acc)"
      by auto
    show ?thesis using Cons.IH [OF _ m] Cons.prems(1) by simp
  qed
qed

lemma merge_output_ordered:
  assumes "ordered_segs lol" "merge_ssegs_same_speaker lol = Inr out"
  shows "ordered_segs out"
proof (cases lol)
  case Nil
  with assms show ?thesis by (simp add: merge_ssegs_same_speaker_def)
next
  case (Cons x rest)
  obtain o' acc where m: "merge_loop [] x rest = (o', acc)" by fastforce
  with assms Cons have "out = o'" by (simp add: merge_ssegs_same_speaker_def)
  moreover have "ordered_segs (o' @ [acc])"
    using merge_loop_ordered [of "[]" x rest o' acc] m assms(1) Cons by simp
  ultimately show ?thesis
    by (auto simp: ordered_segs_def all_pos_def sorted_append sorted_wrt_append)
qed

lemma pos_non_overlapping_sorted:
  "non_overlapping xs \<Longrightarrow> all_pos xs \<Longrightarrow> sorted_wrt (<) (map sseg_start xs)"
  by (induction xs rule: non_overlapping.induct) (auto simp: all_pos_def)

text \<open>
  C5, as the code has it. For a list sorted by start time with positive durations on
  which the two passes return, every segment of the result ends no later than its
  successor starts. When moreover the end times of the input increase strictly, every
  segment of the result has a positive duration and the start times of the result
  increase strictly.
\<close>

theorem passes_ordered_non_overlapping:
  assumes "sorted (map sseg_start lol)" "all_pos lol"
    and "do_sc_boundaries lol = Inr out"
  shows "non_overlapping out \<and>
         (sorted_wrt (<) (map sseg_end lol) \<longrightarrow>
            all_pos out \<and> sorted_wrt (<) (map sseg_start out))"
proof -
  from assms(1) have s: "sort_key sseg_start lol = lol" by (rule sort_key_id_if_sorted)
  with assms(3) obtain merged where m: "merge_ssegs_same_speaker lol = Inr merged"
    and d: "distribute_overlap merged = Inr out"
    by (auto simp: do_sc_boundaries_def split: sum.splits)
  have n: "non_overlapping out" using d by (rule distribute_overlap_non_overlapping)
  moreover have "all_pos out \<and> sorted_wrt (<) (map sseg_start out)"
    if e: "sorted_wrt (<) (map sseg_end lol)"
  proof -
    have "ordered_segs lol" using assms(1,2) e by (simp add: ordered_segs_def)
    then have "ordered_segs merged"
      using m by (rule merge_output_ordered)
    then have "all_pos out" using d by (rule distribute_overlap_pos)
    with n pos_non_overlapping_sorted show ?thesis by simp
  qed
  ultimately show ?thesis by blast
qed

theorem passes_ordered_non_overlapping_witness:
  "sorted (map sseg_start 
        [\<lparr>rec_id = ''R1'', sseg_start = 0, sseg_end = 2, spkr_id = ''A''\<rparr>,
         \<lparr>rec_id = ''R1'', sseg_start = 1, sseg_end = 3, spkr_id = ''A''\<rparr>,
         \<lparr>rec_id = ''R1'', sseg_start = 3, sseg_end = 5, spkr_id = ''B''\<rparr>,
         \<lparr>rec_id = ''R1'', sseg_start = 4, sseg_end = 6, spkr_id = ''A''\<rparr>,
         \<lparr>rec_id = ''R1'', sseg_start = 5, sseg_end = 7, spkr_id = ''B''\<rparr>])
   \<and> all_pos 
        [\<lparr>rec_id = ''R1'', sseg_start = 0, sseg_end = 2, spkr_id = ''A''\<rparr>,
         \<lparr>rec_id = ''R1'', sseg_start = 1, sseg_end = 3, spkr_id = ''A''\<rparr>,
         \<lparr>rec_id = ''R1'', sseg_start = 3, sseg_end = 5, spkr_id = ''B''\<rparr>,
         \<lparr>rec_id = ''R1'', sseg_start = 4, sseg_end = 6, spkr_id = ''A''\<rparr>,
         \<lparr>rec_id = ''R1'', sseg_start = 5, sseg_end = 7, spkr_id = ''B''\<rparr>]
   \<and> sorted_wrt (<) (map sseg_end 
        [\<lparr>rec_id = ''R1'', sseg_start = 0, sseg_end = 2, spkr_id = ''A''\<rparr>,
         \<lparr>rec_id = ''R1'', sseg_start = 1, sseg_end = 3, spkr_id = ''A''\<rparr>,
         \<lparr>rec_id = ''R1'', sseg_start = 3, sseg_end = 5, spkr_id = ''B''\<rparr>,
         \<lparr>rec_id = ''R1'', sseg_start = 4, sseg_end = 6, spkr_id = ''A''\<rparr>,
         \<lparr>rec_id = ''R1'', sseg_start = 5, sseg_end = 7, spkr_id = ''B''\<rparr>])
   \<and> do_sc_boundaries 
        [\<lparr>rec_id = ''R1'', sseg_start = 0, sseg_end = 2, spkr_id = ''A''\<rparr>,
         \<lparr>rec_id = ''R1'', sseg_start = 1, sseg_end = 3, spkr_id = ''A''\<rparr>,
         \<lparr>rec_id = ''R1'', sseg_start = 3, sseg_end = 5, spkr_id = ''B''\<rparr>,
         \<lparr>rec_id = ''R1'', sseg_start = 4, sseg_end = 6, spkr_id = ''A''\<rparr>,
         \<lparr>rec_id = ''R1'', sseg_start = 5, sseg_end = 7, spkr_id = ''B''\<rparr>]
       = Inr 
        [\<lparr>rec_id = ''R1'', sseg_start = 0, sseg_end = 3, spkr_id = ''A''\<rparr>,
         \<lparr>rec_id = ''R1'', sseg_start = 3, sseg_end = 9 / 2, spkr_id = ''B''\<rparr>,
         \<lparr>rec_id = ''R1'', sseg_start = 9 / 2, sseg_end = 6, spkr_id = ''A''\<rparr>]
   \<and> non_overlapping 
        [\<lparr>rec_id = ''R1'', sseg_start = 0, sseg_end = 3, spkr_id = ''A''\<rparr>,
         \<lparr>rec_id = ''R1'', sseg_start = 3, sseg_end = 9 / 2, spkr_id = ''B''\<rparr>,
         \<lparr>rec_id = ''R1'', sseg_start = 9 / 2, sseg_end = 6, spkr_id = ''A''\<rparr>]
   \<and> all_pos 
        [\<lparr>rec_id = ''R1'', sseg_start = 0, sseg_end = 3, spkr_id = ''A''\<rparr>,
         \<lparr>rec_id = ''R1'', sseg_start = 3, sseg_end = 9 / 2, spkr_id = ''B''\<rparr>,
         \<lparr>rec_id = ''R1'', sseg_start = 9 / 2, sseg_end = 6, spkr_id = ''A''\<rparr>]
   \<and> sorted_wrt (<) (map sseg_start 
        [\<lparr>rec_id = ''R1'', sseg_start = 0, sseg_end = 3, spkr_id = ''A''\<rparr>,
         \<lparr>rec_id = ''R1'', sseg_start = 3, sseg_end = 9 / 2, spkr_id = ''B''\<rparr>,
         \<lparr>rec_id = ''R1'', sseg_start = 9 / 2, sseg_end = 6, spkr_id = ''A''\<rparr>])"
proof -
  have h1: "sorted (map sseg_start 
        [\<lparr>rec_id = ''R1'', sseg_start = 0, sseg_end = 2, spkr_id = ''A''\<rparr>,
         \<lparr>rec_id = ''R1'', sseg_start = 1, sseg_end = 3, spkr_id = ''A''\<rparr>,
         \<lparr>rec_id = ''R1'', sseg_start = 3, sseg_end = 5, spkr_id = ''B''\<rparr>,
         \<lparr>rec_id = ''R1'', sseg_start = 4, sseg_end = 6, spkr_id = ''A''\<rparr>,
         \<lparr>rec_id = ''R1'', sseg_start = 5, sseg_end = 7, spkr_id = ''B''\<rparr>])"
    by simp
  have h2: "all_pos 
        [\<lparr>rec_id = ''R1'', sseg_start = 0, sseg_end = 2, spkr_id = ''A''\<rparr>,
         \<lparr>rec_id = ''R1'', sseg_start = 1, sseg_end = 3, spkr_id = ''A''\<rparr>,
         \<lparr>rec_id = ''R1'', sseg_start = 3, sseg_end = 5, spkr_id = ''B''\<rparr>,
         \<lparr>rec_id = ''R1'', sseg_start = 4, sseg_end = 6, spkr_id = ''A''\<rparr>,
         \<lparr>rec_id = ''R1'', sseg_start = 5, sseg_end = 7, spkr_id = ''B''\<rparr>]"
    by (simp add: all_pos_def)
  have h3: "do_sc_boundaries 
        [\<lparr>rec_id = ''R1'', sseg_start = 0, sseg_end = 2, spkr_id = ''A''\<rparr>,
         \<lparr>rec_id = ''R1'', sseg_start = 1, sseg_end = 3, spkr_id = ''A''\<rparr>,
         \<lparr>rec_id = ''R1'', sseg_start = 3, sseg_end = 5, spkr_id = ''B''\<rparr>,
         \<lparr>rec_id = ''R1'', sseg_start = 4, sseg_end = 6, spkr_id = ''A''\<rparr>,
         \<lparr>rec_id = ''R1'', sseg_start = 5, sseg_end = 7, spkr_id = ''B''\<rparr>]
       = Inr 
        [\<lparr>rec_id = ''R1'', sseg_start = 0, sseg_end = 3, spkr_id = ''A''\<rparr>,
         \<lparr>rec_id = ''R1'', sseg_start = 3, sseg_end = 9 / 2, spkr_id = ''B''\<rparr>,
         \<lparr>rec_id = ''R1'', sseg_start = 9 / 2, sseg_end = 6, spkr_id = ''A''\<rparr>]"
    by (simp add: seg_defs)
  have h4: "sorted_wrt (<) (map sseg_end 
        [\<lparr>rec_id = ''R1'', sseg_start = 0, sseg_end = 2, spkr_id = ''A''\<rparr>,
         \<lparr>rec_id = ''R1'', sseg_start = 1, sseg_end = 3, spkr_id = ''A''\<rparr>,
         \<lparr>rec_id = ''R1'', sseg_start = 3, sseg_end = 5, spkr_id = ''B''\<rparr>,
         \<lparr>rec_id = ''R1'', sseg_start = 4, sseg_end = 6, spkr_id = ''A''\<rparr>,
         \<lparr>rec_id = ''R1'', sseg_start = 5, sseg_end = 7, spkr_id = ''B''\<rparr>])"
    by simp
  from passes_ordered_non_overlapping [OF h1 h2 h3] h1 h2 h3 h4 show ?thesis
    by blast
qed

text \<open>
  The claim as stated fails when a segment lies inside its predecessor: in the sorted
  list \<open>A:(0,10), B:(1,2), C:(20,21)\<close> every duration is positive, and the two passes
  return \<open>A:(0,5.5), B:(5.5,2)\<close>, whose second segment ends before it starts.
\<close>

theorem contained_segment_counterexample:
  "sorted (map sseg_start 
        [\<lparr>rec_id = ''R1'', sseg_start = 0, sseg_end = 10, spkr_id = ''A''\<rparr>,
         \<lparr>rec_id = ''R1'', sseg_start = 1, sseg_end = 2, spkr_id = ''B''\<rparr>,
         \<lparr>rec_id = ''R1'', sseg_start = 20, sseg_end = 21, spkr_id = ''C''\<rparr>])
   \<and> all_pos 
        [\<lparr>rec_id = ''R1'', sseg_start = 0, sseg_end = 10, spkr_id = ''A''\<rparr>,
         \<lparr>rec_id = ''R1'', sseg_start = 1, sseg_end = 2, spkr_id = ''B''\<rparr>,
         \<lparr>rec_id = ''R1'', sseg_start = 20, sseg_end = 21, spkr_id = ''C''\<rparr>]
   \<and> do_sc_boundaries 
        [\<lparr>rec_id = ''R1'', sseg_start = 0, sseg_end = 10, spkr_id = ''A''\<rparr>,
         \<lparr>rec_id = ''R1'', sseg_start = 1, sseg_end = 2, spkr_id = ''B''\<rparr>,
         \<lparr>rec_id = ''R1'', sseg_start = 20, sseg_end = 21, spkr_id = ''C''\<rparr>]
       = Inr 
        [\<lparr>rec_id = ''R1'', sseg_start = 0, sseg_end = 11 / 2, spkr_id = ''A''\<rparr>,
         \<lparr>rec_id = ''R1'', sseg_start = 11 / 2, sseg_end = 2, spkr_id = ''B''\<rparr>]
   \<and> \<not> all_pos 
        [\<lparr>rec_id = ''R1'', sseg_start = 0, sseg_end = 11 / 2, spkr_id = ''A''\<rparr>,
         \<lparr>rec_id = ''R1'', sseg_start = 11 / 2, sseg_end = 2, spkr_id = ''B''\<rparr>]"
  by (simp add: seg_defs all_pos_def)

section \<open>Tracing back the cluster labels\<close>

subsection \<open>Cluster names are unambiguous\<close>

lemma digit_char_inj: "a < 10 \<Longrightarrow> b < 10 \<Longrightarrow> digit_char a = digit_char b \<Longrightarrow> a = b"
proof -
  assume a: "a < 10" and b: "b < 10" and e: "digit_char a = digit_char b"
  have "distinct ''0123456789''" by simp
  moreover have "a < length ''0123456789''" "b < length ''0123456789''" using a b by simp_all
  ultimately show "a = b" using e unfolding digit_char_def by (simp only: nth_eq_iff_index_eq)
qed

lemma digit_char_not_minus: "d < 10 \<Longrightarrow> digit_char d \<noteq> CHR ''-''"
proof
  assume d: "d < 10" and e: "digit_char d = CHR ''-''"
  from d have "d < length ''0123456789''" by simp
  then have "''0123456789'' ! d \<in> set ''0123456789''" by (rule nth_mem)
  with e show False by (simp add: digit_char_def)
qed

lemma str_nat_nonempty: "str_nat n \<noteq> []"
  by (subst str_nat.simps) simp

lemma str_nat_no_minus: "CHR ''-'' \<notin> set (str_nat n)"
proof (induction n rule: str_nat.induct)
  case (1 n)
  show ?case
  proof (cases "n < 10")
    case True
    then show ?thesis using digit_char_not_minus [of n] by (subst str_nat.simps) auto
  next
    case False
    then show ?thesis using 1 digit_char_not_minus [of "n mod 10"]
      by (subst str_nat.simps) auto
  qed
qed

lemma str_nat_inj: "str_nat a = str_nat b \<Longrightarrow> a = b"
proof (induction a arbitrary: b rule: str_nat.induct)
  case (1 a)
  show ?case
  proof (cases "a < 10")
    case a: True
    show ?thesis
    proof (cases "b < 10")
      case True
      with a "1.prems" show ?thesis
        using digit_char_inj [of a b] by (simp add: str_nat.simps [of a] str_nat.simps [of b])
    next
      case False
      with a "1.prems" show ?thesis
        using str_nat_nonempty [of "b div 10"]
        by (simp add: str_nat.simps [of a] str_nat.simps [of b])
    qed
  next
    case a: False
    show ?thesis
    proof (cases "b < 10")
      case True
      with a "1.prems" show ?thesis
        using str_nat_nonempty [of "a div 10"]
        by (simp add: str_nat.simps [of a] str_nat.simps [of b])
    next
      case False
      with a "1.prems" have "str_nat (a div 10) = str_nat (b div 10)"
        and m: "digit_char (a mod 10) = digit_char (b mod 10)"
        by (simp_all add: str_nat.simps [of a] str_nat.simps [of b])
      with "1.IH" a have "a div 10 = b div 10" by blast
      moreover from m have "a mod 10 = b mod 10" using digit_char_inj by simp
      ultimately show ?thesis by (metis div_mult_mod_eq)
    qed
  qed
qed

lemma py_str_inj: "py_str a = py_str b \<Longrightarrow> a = b"
proof -
  assume e: "py_str a = py_str b"
  have hd: "CHR ''-'' # xs \<noteq> str_nat n" for n xs
    using str_nat_no_minus [of n] by (metis list.set_intros(1))
  show "a = b"
  proof (cases "a < 0")
    case a: True
    show ?thesis
    proof (cases "b < 0")
      case True
      with a e have "str_nat (nat (- a)) = str_nat (nat (- b))" by (simp add: py_str_def)
      then have "nat (- a) = nat (- b)" by (rule str_nat_inj)
      with a True show ?thesis by simp
    next
      case False
      with a e hd [of _ "nat b"] show ?thesis by (auto simp: py_str_def)
    qed
  next
    case a: False
    show ?thesis
    proof (cases "b < 0")
      case True
      with a e hd [of _ "nat a"] show ?thesis by (auto simp: py_str_def)
    next
      case False
      with a e have "str_nat (nat a) = str_nat (nat b)" by (simp add: py_str_def)
      then have "nat a = nat b" by (rule str_nat_inj)
      with a False show ?thesis by simp
    qed
  qed
qed


subsection \<open>Dictionary operations\<close>

lemma inj_py_str: "inj py_str"
  by (rule injI) (rule py_str_inj)

lemma update_fresh: "k \<notin> fst ` set al \<Longrightarrow> AList.update k v al = al @ [(k, v)]"
  by (induction al) auto

lemma contents_append: "contents (xs @ ys) = contents xs + contents ys"
  by (simp add: contents_def)

lemma delete_props:
  "distinct (map fst al) \<Longrightarrow> map_of al k = Some v \<Longrightarrow>
   Suc (length (AList.delete k al)) = length al
   \<and> contents al = mset v + contents (AList.delete k al)"
proof (induction al)
  case Nil
  then show ?case by simp
next
  case (Cons p al)
  show ?case
  proof (cases "fst p = k")
    case True
    with Cons.prems have "k \<notin> fst ` set al" "snd p = v" by auto
    then have "AList.delete k al = al" by (simp add: delete_id)
    with True \<open>snd p = v\<close> show ?thesis by (cases p) (simp add: contents_def)
  next
    case False
    with Cons show ?thesis by (cases p) (auto simp: contents_def)
  qed
qed

lemma dict_get_Some: "map_of clusters k = Some v \<Longrightarrow> dict_get clusters k = Inr v"
  by (simp add: dict_get_def)

lemma dict_pop_Some: "map_of clusters k = Some v \<Longrightarrow> dict_pop clusters k = Inr (AList.delete k clusters)"
  by (simp add: dict_pop_def)

lemma init_clusters_eq: "init_clusters N = map (\<lambda>i. (py_str (int i), [i])) [0..<N]"
proof (induction N)
  case 0
  then show ?case by (simp add: init_clusters_def)
next
  case (Suc N)
  have "py_str (int N) \<notin> fst ` set (map (\<lambda>i. (py_str (int i), [i])) [0..<N])"
    using py_str_inj by fastforce
  from update_fresh [OF this] Suc show ?case
    by (simp add: init_clusters_def)
qed

lemma contents_init: "contents (map (\<lambda>i. (py_str (int i), [i])) xs) = mset xs"
  by (induction xs) (simp_all add: contents_def)

lemma clusters_inv_init: "clusters_inv N 0 (map int [0..<N]) (init_clusters N)"
proof -
  have "distinct (map fst (init_clusters N))"
    unfolding init_clusters_eq
    by (auto simp: distinct_map inj_on_def dest!: py_str_inj)
  moreover have "set (map fst (init_clusters N)) = py_str ` set (map int [0..<N])"
    unfolding init_clusters_eq by (auto simp: image_iff)
  moreover have "contents (init_clusters N) = mset [0..<N]"
    unfolding init_clusters_eq by (rule contents_init)
  moreover have "length (init_clusters N) = N"
    unfolding init_clusters_eq by simp
  moreover have "\<forall>v \<in> snd ` set (init_clusters N). v \<noteq> []"
    unfolding init_clusters_eq by auto
  ultimately show ?thesis by (auto simp: clusters_inv_def)
qed


subsection \<open>One merge\<close>

lemma trace_back_body_inv:
  assumes inv: "clusters_inv N i alive clusters" and i: "i < length cmt"
    and a: "py_int (col0 (cmt ! i)) \<in> set alive" and b: "py_int (col1 (cmt ! i)) \<in> set alive"
    and ab: "py_int (col0 (cmt ! i)) \<noteq> py_int (col1 (cmt ! i))"
  shows "\<exists>c'. trace_back_body cmt N i clusters = Inr c'
           \<and> clusters_inv N (i + 1)
                (int (N + i) # removeAll (py_int (col0 (cmt ! i)))
                                 (removeAll (py_int (col1 (cmt ! i))) alive)) c'"
proof -
  define ai where "ai = py_int (col0 (cmt ! i))"
  define bi where "bi = py_int (col1 (cmt ! i))"
  define new_id where "new_id = py_str (int (N + i))"
  from inv have d: "distinct (map fst clusters)"
    and keys: "set (map fst clusters) = py_str ` set alive"
    and bound: "\<forall>x \<in> set alive. x < int (N + i)"
    and len: "length clusters + i = N"
    and cont: "contents clusters = mset [0..<N]"
    and ne: "\<forall>v \<in> snd ` set clusters. v \<noteq> []"
    by (simp_all add: clusters_inv_def)
  from a keys have "py_str ai \<in> fst ` set clusters" by (auto simp: ai_def)
  then obtain ca where ca: "map_of clusters (py_str ai) = Some ca"
    by (metis map_of_eq_None_iff not_Some_eq)
  from b keys have "py_str bi \<in> fst ` set clusters" by (auto simp: bi_def)
  then obtain cb where cb: "map_of clusters (py_str bi) = Some cb"
    by (metis map_of_eq_None_iff not_Some_eq)
  have fresh: "new_id \<notin> fst ` set clusters"
  proof
    assume "new_id \<in> fst ` set clusters"
    with keys obtain x where "x \<in> set alive" "py_str x = py_str (int (N + i))"
      by (auto simp: new_id_def)
    with bound py_str_inj show False by fastforce
  qed
  define c0 where "c0 = AList.update new_id (ca @ cb) clusters"
  have c0: "c0 = clusters @ [(new_id, ca @ cb)]"
    unfolding c0_def using fresh by (rule update_fresh)
  have d0: "distinct (map fst c0)" using d fresh by (simp add: c0)
  have a_new: "py_str ai \<noteq> new_id" using fresh \<open>py_str ai \<in> fst ` set clusters\<close> by auto
  have b_new: "py_str bi \<noteq> new_id" using fresh \<open>py_str bi \<in> fst ` set clusters\<close> by auto
  have a_b: "py_str ai \<noteq> py_str bi" using ab py_str_inj by (auto simp: ai_def bi_def)
  have m0: "map_of c0 (py_str ai) = Some ca"
    using ca by (simp add: c0 map_add_def)
  define c1 where "c1 = AList.delete (py_str ai) c0"
  have d1: "distinct (map fst c1)" unfolding c1_def using d0 by (rule distinct_delete)
  have m1: "map_of c1 (py_str bi) = Some cb"
    using cb a_b by (simp add: c1_def delete_conv c0 map_add_def)
  define c2 where "c2 = AList.delete (py_str bi) c1"
  have body: "trace_back_body cmt N i clusters = Inr c2"
    using i dict_get_Some [OF ca] dict_get_Some [OF cb] dict_pop_Some [OF m0] dict_pop_Some [OF m1]
    by (simp add: trace_back_body_def Let_def ai_def [symmetric] bi_def [symmetric]
                  new_id_def [symmetric] c0_def [symmetric] c1_def [symmetric] c2_def [symmetric]
             del: of_nat_add)
  have d2: "distinct (map fst c2)" unfolding c2_def using d1 by (rule distinct_delete)
  from delete_props [OF d0 m0] have l1: "Suc (length c1) = length c0"
    and k1: "contents c0 = mset ca + contents c1" by (simp_all add: c1_def)
  from delete_props [OF d1 m1] have l2: "Suc (length c2) = length c1"
    and k2: "contents c1 = mset cb + contents c2" by (simp_all add: c2_def)
  have len2: "length c2 + (i + 1) = N" using l1 l2 len by (simp add: c0)
  have "contents c0 = contents clusters + (mset ca + mset cb)"
    by (simp add: c0 contents_append) (simp add: contents_def)
  with k1 k2 have cont2: "contents c2 = mset [0..<N]" using cont by simp
  have keys2: "set (map fst c2) = py_str ` set (int (N + i) # removeAll ai (removeAll bi alive))"
  proof -
    have "set (map fst c2) = (set (map fst clusters) \<union> {new_id}) - {py_str ai} - {py_str bi}"
      by (auto simp: c2_def c1_def c0 delete_keys)
    also have "\<dots> = py_str ` (set alive \<union> {int (N + i)} - {ai} - {bi})"
      unfolding keys new_id_def using py_str_inj by (auto 4 4)
    also have "set alive \<union> {int (N + i)} - {ai} - {bi}
                 = set (int (N + i) # removeAll ai (removeAll bi alive))"
      using a b bound by (auto simp: ai_def bi_def)
    finally show ?thesis .
  qed
  have ne2: "\<forall>v \<in> snd ` set c2. v \<noteq> []"
  proof -
    have "set c2 \<subseteq> set clusters \<union> {(new_id, ca @ cb)}"
      by (auto simp: c2_def c1_def c0 AList.delete_eq)
    moreover have "ca \<noteq> []" using ne map_of_SomeD [OF ca] by force
    ultimately show ?thesis using ne by fastforce
  qed
  have bound2: "\<forall>x \<in> set (int (N + i) # removeAll ai (removeAll bi alive)). x < int (N + (i + 1))"
    using bound by auto
  have "clusters_inv N (i + 1) (int (N + i) # removeAll ai (removeAll bi alive)) c2"
    unfolding clusters_inv_def using d2 keys2 bound2 len2 cont2 ne2 by simp
  with body show ?thesis by (simp add: ai_def bi_def)
qed

subsection \<open>The loop\<close>

lemma trace_back_loop_inv:
  assumes "N = length cmt + 1"
  shows "i \<le> length cmt \<Longrightarrow> valid_merges alive (N + i) (drop i cmt) \<Longrightarrow>
         clusters_inv N i alive clusters \<Longrightarrow>
         \<exists>out alive'. trace_back_loop cmt N K i clusters = Inr out
            \<and> clusters_inv N (N - length out) alive' out
            \<and> length out = expected_len K N i"
proof (induction "length cmt - i" arbitrary: i alive clusters)
  case 0
  then have i: "i = length cmt" by simp
  with assms have "\<not> i < N - 1" by simp
  then have "trace_back_loop cmt N K i clusters = Inr clusters"
    by (simp add: trace_back_loop.simps)
  moreover from "0.prems"(3) i assms have "length clusters = 1" "N - length clusters = i"
    by (simp_all add: clusters_inv_def)
  moreover have "expected_len K N i = 1"
    using i assms by (simp add: expected_len_def split: option.splits)
  ultimately show ?case using "0.prems"(3) by auto
next
  case (Suc n)
  then have i: "i < length cmt" by simp
  with assms have iN: "i < N - 1" by simp
  from i have dr: "drop i cmt = cmt ! i # drop (Suc i) cmt"
    by (simp add: Cons_nth_drop_Suc)
  define alive' where
    "alive' = int (N + i) # removeAll (py_int (col0 (cmt ! i))) (removeAll (py_int (col1 (cmt ! i))) alive)"
  from Suc.prems(2) dr have a: "py_int (col0 (cmt ! i)) \<in> set alive"
    and b: "py_int (col1 (cmt ! i)) \<in> set alive"
    and ab: "py_int (col0 (cmt ! i)) \<noteq> py_int (col1 (cmt ! i))"
    and v: "valid_merges alive' (N + (i + 1)) (drop (i + 1) cmt)"
    by (simp_all add: alive'_def)
  from trace_back_body_inv [OF Suc.prems(3) i a b ab]
  obtain c' where body: "trace_back_body cmt N i clusters = Inr c'"
    and inv': "clusters_inv N (i + 1) alive' c'"
    by (auto simp: alive'_def)
  from inv' have len': "length c' + (i + 1) = N" by (simp add: clusters_inv_def)
  show ?case
  proof (cases "stop_reached K c'")
    case True
    with body iN have "trace_back_loop cmt N K i clusters = Inr c'"
      by (simp add: trace_back_loop.simps [of cmt N K i])
    moreover have "N - length c' = i + 1" using len' by simp
    moreover have "length c' = expected_len K N i"
      using True len' iN by (auto simp: stop_reached_def expected_len_def split: option.splits)
    ultimately show ?thesis using inv' by auto
  next
    case False
    with body iN have "trace_back_loop cmt N K i clusters = trace_back_loop cmt N K (i + 1) c'"
      by (simp add: trace_back_loop.simps [of cmt N K i])
    moreover have "n = length cmt - (i + 1)" "i + 1 \<le> length cmt" using Suc.hyps(2) i by simp_all
    from Suc.hyps(1) [OF this v inv']
    obtain out al where "trace_back_loop cmt N K (i + 1) c' = Inr out"
      "clusters_inv N (N - length out) al out" "length out = expected_len K N (i + 1)"
      by blast
    moreover have "expected_len K N (i + 1) = expected_len K N i"
      using False len' iN by (auto simp: stop_reached_def expected_len_def split: option.splits)
    ultimately show ?thesis by auto
  qed
qed

text \<open>
  On a linkage the traceback returns: the result is a partition of the \<open>N\<close> original
  indices into non-empty clusters under distinct names.
\<close>

lemma trace_back_partition:
  assumes "valid_linkage cmt"
  shows "\<exists>out alive. trace_back_cluster_labels cmt threshold K = Inr out
           \<and> clusters_inv (length cmt + 1) (length cmt + 1 - length out) alive out
           \<and> length out = expected_len K (length cmt + 1) 0"
proof -
  have "valid_merges (map int [0..<length cmt + 1]) (length cmt + 1 + 0) (drop 0 cmt)"
    using assms by (simp add: valid_linkage_def Let_def)
  from trace_back_loop_inv [OF refl _ this clusters_inv_init, of K]
  show ?thesis by (simp add: trace_back_cluster_labels_def Let_def)
qed

subsection \<open>The number of clusters returned\<close>

text \<open>
  For a target count \<open>k\<close> with \<open>1 \<le> k \<le> N - 1\<close> the traceback of a linkage returns exactly
  \<open>k\<close> non-empty clusters that partition the \<open>N\<close> original indices.
\<close>

lemma trace_back_oracle_reached:
  assumes "valid_linkage cmt" "1 \<le> k" "nat k \<le> length cmt"
  shows "\<exists>out. trace_back_cluster_labels cmt threshold (Some k) = Inr out
           \<and> length out = nat k \<and> distinct (map fst out)
           \<and> contents out = mset [0..<length cmt + 1] \<and> (\<forall>v \<in> snd ` set out. v \<noteq> [])"
proof -
  from trace_back_partition [OF assms(1), of threshold "Some k"]
  obtain out alive where "trace_back_cluster_labels cmt threshold (Some k) = Inr out"
    "clusters_inv (length cmt + 1) (length cmt + 1 - length out) alive out"
    "length out = expected_len (Some k) (length cmt + 1) 0"
    by blast
  moreover have "expected_len (Some k) (length cmt + 1) 0 = nat k"
    using assms(2,3) by (auto simp: expected_len_def)
  ultimately show ?thesis by (auto simp: clusters_inv_def)
qed

text \<open>
  For a target count of \<open>N\<close> or more the first merge is still made, since the count is
  only compared after it: \<open>N - 1\<close> clusters are returned.
\<close>

lemma trace_back_oracle_not_below:
  assumes "valid_linkage cmt" "cmt \<noteq> []" "int (length cmt) < k"
  shows "\<exists>out. trace_back_cluster_labels cmt threshold (Some k) = Inr out
           \<and> length out = length cmt"
proof -
  from trace_back_partition [OF assms(1), of threshold "Some k"]
  obtain out alive where "trace_back_cluster_labels cmt threshold (Some k) = Inr out"
    "length out = expected_len (Some k) (length cmt + 1) 0"
    by blast
  moreover have "expected_len (Some k) (length cmt + 1) 0 = length cmt"
    using assms(2,3) by (auto simp: expected_len_def)
  ultimately show ?thesis by auto
qed

lemmas trace_eval =
  trace_back_cluster_labels_def trace_back_loop.simps trace_back_body_def init_clusters_def
  dict_get_def dict_pop_def stop_reached_def py_str_def py_int_def str_nat.simps digit_char_def
  valid_linkage_def Let_def

text \<open>
  C2. The cluster count at \<open>N = K = 2\<close>: for the linkage of two original indices, whose
  one record merges clusters 0 and 1, and the target count 2, the traceback returns the
  single cluster \<open>2 \<mapsto> [0, 1]\<close>, not two clusters.
\<close>

theorem two_indices_two_speakers:
  "valid_linkage [\<lparr>col0 = 0, col1 = 1, col2 = 1 / 2\<rparr>]
   \<and> trace_back_cluster_labels [\<lparr>col0 = 0, col1 = 1, col2 = 1 / 2\<rparr>] (9 / 10) (Some 2)
       = Inr [(''2'', [0, 1])]"
  by (simp add: trace_eval)

text \<open>
  C7. With a falsy target count (\<open>None\<close> or \<open>0\<close>) the traceback of a linkage over \<open>N\<close>
  original indices applies all \<open>N - 1\<close> merges: it returns one cluster, named after the
  last merge (\<open>2N - 2\<close>, which is \<open>0\<close> when there is no merge), and its index list holds
  each of \<open>0, \<dots>, N - 1\<close> once.
\<close>

theorem falsy_target_full_traceback:
  assumes "valid_linkage cmt" "K = None \<or> K = Some 0"
  shows "\<exists>v. trace_back_cluster_labels cmt threshold K = Inr [(py_str (int (2 * length cmt)), v)]
            \<and> mset v = mset [0..<length cmt + 1]"
proof (cases "cmt = []")
  case True
  then show ?thesis
    by (simp add: trace_back_cluster_labels_def trace_back_loop.simps init_clusters_def)
next
  case False
  define N where "N = length cmt + 1"
  from trace_back_partition [OF assms(1), of threshold K]
  obtain out alive where t: "trace_back_cluster_labels cmt threshold K = Inr out"
    and inv: "clusters_inv N (N - length out) alive out"
    and len: "length out = expected_len K N 0"
    unfolding N_def by blast
  from assms(2) len have l1: "length out = 1" by (auto simp: expected_len_def)
  then obtain k v where out: "out = [(k, v)]"
    by (cases out) (auto simp: length_Suc_conv)
  from l1 False have pos: "0 < N - length out" by (simp add: N_def)
  from l1 have eq: "int (N + (N - length out)) - 1 = int (2 * length cmt)" by (simp add: N_def)
  from inv have keys: "{k} = py_str ` set alive" and c: "contents out = mset [0..<N]"
    by (simp_all add: clusters_inv_def out)
  from inv have "0 < N - length out \<longrightarrow> int (N + (N - length out)) - 1 \<in> set alive"
    unfolding clusters_inv_def by blast
  with pos have m: "int (N + (N - length out)) - 1 \<in> set alive" by blast
  have "int (2 * length cmt) \<in> set alive" using m unfolding eq .
  then have "py_str (int (2 * length cmt)) \<in> py_str ` set alive" by (rule imageI)
  with keys have "py_str (int (2 * length cmt)) \<in> {k}" by (simp only:)
  then have "k = py_str (int (2 * length cmt))" by simp
  with t out c show ?thesis by (simp add: contents_def N_def)
qed

theorem falsy_target_full_traceback_witness:
  "valid_linkage [\<lparr>col0 = 0, col1 = 1, col2 = 1 / 2\<rparr>, \<lparr>col0 = 2, col1 = 3, col2 = 7 / 10\<rparr>,
                  \<lparr>col0 = 4, col1 = 5, col2 = 1\<rparr>]
   \<and> (\<exists>v. trace_back_cluster_labels
             [\<lparr>col0 = 0, col1 = 1, col2 = 1 / 2\<rparr>, \<lparr>col0 = 2, col1 = 3, col2 = 7 / 10\<rparr>,
              \<lparr>col0 = 4, col1 = 5, col2 = 1\<rparr>] (9 / 10) None
           = Inr [(''6'', v)] \<and> mset v = mset [0..<4])"
proof -
  have h: "valid_linkage [\<lparr>col0 = 0, col1 = 1, col2 = 1 / 2\<rparr>, \<lparr>col0 = 2, col1 = 3, col2 = 7 / 10\<rparr>,
                  \<lparr>col0 = 4, col1 = 5, col2 = 1\<rparr>]"
    by (simp add: valid_linkage_def py_int_def)
  have s: "py_str 6 = ''6''"
    by (simp add: py_str_def str_nat.simps digit_char_def)
  have e: "int (2 * length [\<lparr>col0 = 0, col1 = 1, col2 = 1 / 2\<rparr>, \<lparr>col0 = 2, col1 = 3, col2 = 7 / 10\<rparr>,
                  \<lparr>col0 = 4, col1 = 5, col2 = (1::rat)\<rparr>]) = 6"
    "length [\<lparr>col0 = 0, col1 = 1, col2 = 1 / 2\<rparr>, \<lparr>col0 = 2, col1 = 3, col2 = 7 / 10\<rparr>,
                  \<lparr>col0 = 4, col1 = 5, col2 = (1::rat)\<rparr>] + 1 = 4"
    by simp_all
  from falsy_target_full_traceback [OF h, of None "9 / 10"] h show ?thesis
    by (simp only: e s simp_thms)
qed

subsection \<open>What the result depends on\<close>

lemma trace_back_body_cong:
  assumes "map col0 cmt = map col0 cmt'" "map col1 cmt = map col1 cmt'"
  shows "trace_back_body cmt N i clusters = trace_back_body cmt' N i clusters"
proof -
  from assms(1) have l: "length cmt = length cmt'" by (rule map_eq_imp_length_eq)
  show ?thesis
  proof (cases "i < length cmt")
    case True
    from True have "col0 (cmt ! i) = map col0 cmt ! i" "col1 (cmt ! i) = map col1 cmt ! i" by simp_all
    moreover from True l have "col0 (cmt' ! i) = map col0 cmt' ! i" "col1 (cmt' ! i) = map col1 cmt' ! i"
      by simp_all
    ultimately have "col0 (cmt ! i) = col0 (cmt' ! i)" "col1 (cmt ! i) = col1 (cmt' ! i)"
      using assms by simp_all
    with l show ?thesis by (simp add: trace_back_body_def)
  next
    case False
    with l show ?thesis by (simp add: trace_back_body_def)
  qed
qed

lemma trace_back_loop_cong:
  assumes "map col0 cmt = map col0 cmt'" "map col1 cmt = map col1 cmt'"
  shows "trace_back_loop cmt N K i clusters = trace_back_loop cmt' N K i clusters"
proof (induction "N - 1 - i" arbitrary: i clusters)
  case 0
  then have "\<not> i < N - 1" by simp
  then show ?case
    by (simp add: trace_back_loop.simps [of cmt N K i] trace_back_loop.simps [of cmt' N K i])
next
  case (Suc n)
  then have i: "i < N - 1" by simp
  note b = trace_back_body_cong [OF assms, of N i clusters]
  show ?case
  proof (cases "trace_back_body cmt N i clusters")
    case (Inl e)
    with b have "trace_back_body cmt' N i clusters = Inl e" by simp
    with Inl i show ?thesis
      by (simp add: trace_back_loop.simps [of cmt N K i] trace_back_loop.simps [of cmt' N K i])
  next
    case (Inr c')
    from Suc.hyps(2) have "n = N - 1 - (i + 1)" by simp
    from Suc.hyps(1) [OF this]
    have "trace_back_loop cmt N K (i + 1) c' = trace_back_loop cmt' N K (i + 1) c'" .
    moreover from b Inr have "trace_back_body cmt' N i clusters = Inr c'" by simp
    ultimately show ?thesis using Inr i
      by (simp add: trace_back_loop.simps [of cmt N K i] trace_back_loop.simps [of cmt' N K i])
  qed
qed

text \<open>
  C10. Neither the threshold nor the distance column enters the result: two calls whose
  merge records agree on column 0 and on column 1 return the same, whatever the two
  thresholds and the two distance columns are.
\<close>

theorem threshold_and_distance_ignored:
  assumes "map col0 cmt = map col0 cmt'" "map col1 cmt = map col1 cmt'"
  shows "trace_back_cluster_labels cmt threshold K = trace_back_cluster_labels cmt' threshold' K"
proof -
  from assms(1) have "length cmt = length cmt'" by (rule map_eq_imp_length_eq)
  with trace_back_loop_cong [OF assms] show ?thesis
    by (simp add: trace_back_cluster_labels_def)
qed

theorem threshold_and_distance_ignored_witness:
  "map col0 [\<lparr>col0 = 0, col1 = 1, col2 = 1 / 2\<rparr>, \<lparr>col0 = 2, col1 = 3, col2 = 7 / 10\<rparr>]
     = map col0 [\<lparr>col0 = 0, col1 = 1, col2 = 4\<rparr>, \<lparr>col0 = 2, col1 = 3, col2 = 3\<rparr>]
   \<and> map col1 [\<lparr>col0 = 0, col1 = 1, col2 = 1 / 2\<rparr>, \<lparr>col0 = 2, col1 = 3, col2 = 7 / 10\<rparr>]
     = map col1 [\<lparr>col0 = 0, col1 = 1, col2 = 4\<rparr>, \<lparr>col0 = 2, col1 = 3, col2 = 3\<rparr>]
   \<and> trace_back_cluster_labels
        [\<lparr>col0 = 0, col1 = 1, col2 = 1 / 2\<rparr>, \<lparr>col0 = 2, col1 = 3, col2 = 7 / 10\<rparr>] (9 / 10) (Some 2)
     = trace_back_cluster_labels
        [\<lparr>col0 = 0, col1 = 1, col2 = 4\<rparr>, \<lparr>col0 = 2, col1 = 3, col2 = 3\<rparr>] (1 / 10) (Some 2)"
  using threshold_and_distance_ignored
          [of "[\<lparr>col0 = 0, col1 = 1, col2 = 1 / 2\<rparr>, \<lparr>col0 = 2, col1 = 3, col2 = 7 / 10\<rparr>]"
              "[\<lparr>col0 = 0, col1 = 1, col2 = 4\<rparr>, \<lparr>col0 = 2, col1 = 3, col2 = 3\<rparr>]"
              "9 / 10" "Some 2" "1 / 10"]
  by simp

section \<open>The RTTM writer\<close>

lemma round_half_even_close: "\<bar>of_int (round_half_even x) - x\<bar> \<le> 1 / 2"
proof -
  have "of_int \<lfloor>x\<rfloor> \<le> x" "x < of_int \<lfloor>x\<rfloor> + 1" by linarith+
  then show ?thesis
    by (auto simp: round_half_even_def Let_def abs_le_iff)
qed

text \<open>\<open>py_round x 4\<close> is a multiple of \<open>10\<^sup>-\<^sup>4\<close> at distance at most \<open>10\<^sup>-\<^sup>4 / 2\<close> from \<open>x\<close>.\<close>

lemma py_round_close: "\<bar>py_round x 4 - x\<bar> \<le> 1 / 20000"
proof -
  have "\<bar>of_int (round_half_even (x * 10000)) - x * 10000\<bar> \<le> 1 / 2"
    by (rule round_half_even_close)
  then show ?thesis
    by (simp add: py_round_def abs_le_iff field_simps)
qed

lemma py_round_multiple: "\<exists>k::int. py_round x 4 = of_int k / 10000"
  by (auto simp: py_round_def)

text \<open>
  Rounding the difference is not the difference of the roundings: for start \<open>0.00005\<close> and
  end \<open>0.00015\<close> the duration field is \<open>0.0001\<close>, while the rounded end minus the rounded
  start is \<open>0.0002\<close>.
\<close>

lemma duration_not_from_rounded_times:
  "py_round (3 / 20000 - 1 / 20000) 4 = 1 / 10000
   \<and> py_round (3 / 20000) 4 - py_round (1 / 20000) 4 = 2 / 10000"
proof -
  have f: "\<lfloor>3 / 2 :: rat\<rfloor> = 1" "\<lfloor>1 / 2 :: rat\<rfloor> = 0" by (simp_all add: floor_eq_iff)
  show ?thesis
    by (simp add: py_round_def round_half_even_def Let_def f)
qed

lemma join_sp_row:
  "join_sp [a, b, c, d, e, f, g, h, i, j]
     = a @ '' '' @ b @ '' '' @ c @ '' '' @ d @ '' '' @ e @ '' '' @ f @ '' '' @ g @ '' '' @ h
       @ '' '' @ i @ '' '' @ j"
  by simp

text \<open>
  C8. For a non-empty segment list whose segments all carry the recording id \<open>r\<close>,
  \<open>write_rttm\<close> writes one line per segment, in order, each ended by a newline: the ten
  fields \<open>SPEAKER\<close>, \<open>r\<close>, \<open>0\<close>, the start rounded to 4 decimals, the rounding to 4 decimals
  of end minus start (taken from the unrounded start), \<open><NA>\<close>, \<open><NA>\<close>, the speaker label,
  \<open><NA>\<close>, \<open><NA>\<close>, joined by single spaces.
\<close>

theorem write_rttm_lines:
  assumes "segs_list \<noteq> []" "\<forall>s \<in> set segs_list. rec_id s = r"
  shows "write_rttm str segs_list
           = Inr (concat (map (\<lambda>s. ''SPEAKER '' @ r @ '' 0 ''
                                    @ str (py_round (sseg_start s) 4) @ '' ''
                                    @ str (py_round (sseg_end s - sseg_start s) 4)
                                    @ '' <NA> <NA> '' @ spkr_id s @ '' <NA> <NA>'' @ [CHR 0x0A])
                              segs_list))
         \<and> length (rttm_rows str r segs_list) = length segs_list
         \<and> (\<forall>row \<in> set (rttm_rows str r segs_list). length row = 10)"
proof -
  from assms(1) obtain first rest where l: "segs_list = first # rest" by (cases segs_list) auto
  with assms(2) have r: "rec_id first = r" by simp
  have "write_rttm str segs_list
          = Inr (concat (map (\<lambda>row. join_sp row @ [CHR 0x0A]) (rttm_rows str r segs_list)))"
    using l r by (simp add: write_rttm_def)
  also have "map (\<lambda>row. join_sp row @ [CHR 0x0A]) (rttm_rows str r segs_list)
          = map (\<lambda>s. ''SPEAKER '' @ r @ '' 0 ''
                                    @ str (py_round (sseg_start s) 4) @ '' ''
                                    @ str (py_round (sseg_end s - sseg_start s) 4)
                                    @ '' <NA> <NA> '' @ spkr_id s @ '' <NA> <NA>'' @ [CHR 0x0A])
                segs_list"
    by (simp add: rttm_rows_def)
  finally have "write_rttm str segs_list
           = Inr (concat (map (\<lambda>s. ''SPEAKER '' @ r @ '' 0 ''
                                    @ str (py_round (sseg_start s) 4) @ '' ''
                                    @ str (py_round (sseg_end s - sseg_start s) 4)
                                    @ '' <NA> <NA> '' @ spkr_id s @ '' <NA> <NA>'' @ [CHR 0x0A])
                              segs_list))" .
  moreover have "length (rttm_rows str r segs_list) = length segs_list"
    by (simp add: rttm_rows_def)
  moreover have "\<forall>row \<in> set (rttm_rows str r segs_list). length row = 10"
    by (auto simp: rttm_rows_def)
  ultimately show ?thesis by blast
qed

theorem write_rttm_lines_witness:
  "write_rttm (\<lambda>x. if x = 3 then ''3.0'' else if x = 3 / 2 then ''1.5'' else ''?'')
     [\<lparr>rec_id = ''R1'', sseg_start = 3, sseg_end = 9 / 2, spkr_id = ''B''\<rparr>]
   = Inr (''SPEAKER R1 0 3.0 1.5 <NA> <NA> B <NA> <NA>'' @ [CHR 0x0A])"
proof -
  have r: "py_round 3 4 = 3" "py_round (9 / 2 - 3) 4 = 3 / 2"
    by (simp_all add: py_round_def round_half_even_def Let_def)
  have h1: "[\<lparr>rec_id = ''R1'', sseg_start = 3, sseg_end = 9 / 2, spkr_id = ''B''\<rparr>] \<noteq> []" by simp
  have h2: "\<forall>s \<in> set [\<lparr>rec_id = ''R1'', sseg_start = 3, sseg_end = 9 / 2, spkr_id = ''B''\<rparr>]. rec_id s = ''R1''"
    by simp
  from write_rttm_lines [OF h1 h2, of "\<lambda>x. if x = 3 then ''3.0'' else if x = 3 / 2 then ''1.5'' else ''?''"]
  show ?thesis using r by simp
qed

end
